theory Spec2Isabelle
  imports Complex_Main "HOL-Library.Word"
begin

section \<open>The sliding unique window store of main.go\<close>

text \<open>
  Go's \<open>int\<close> is a 64-bit two's complement integer on the 64-bit targets the service is
  built for; \<open>+\<close> wraps around silently. The window is the slice \<open>ns.numbers\<close>; a slice is
  modelled by the list of its elements (the \<open>nil\<close> slice of the zero-valued store is the
  empty list). The mutex of the store is not part of the sequential model.
\<close>

type_synonym go_int = "64 word"

definition WindowSize :: nat where
  "WindowSize = 10"

record NumberStore =
  numbers :: "go_int list"

definition empty_store :: NumberStore where
  "empty_store = \<lparr>numbers = []\<rparr>"

subsection \<open>AddNumbers (main.go, lines 48 to 76)\<close>

text \<open>
  \<open>uniqueNumbers\<close> is a \<open>map[int]bool\<close>. Reading a missing key of a Go map gives the zero
  value \<open>false\<close>.
\<close>

type_synonym unique_map = "go_int \<rightharpoonup> bool"

definition lookup :: "unique_map \<Rightarrow> go_int \<Rightarrow> bool" where
  "lookup m k = (case m k of None \<Rightarrow> False | Some b \<Rightarrow> b)"

text \<open>The first loop: \<open>for _, num := range ns.numbers { uniqueNumbers[num] = true }\<close>.\<close>

fun mark_window :: "go_int list \<Rightarrow> unique_map \<Rightarrow> unique_map" where
  "mark_window [] m = m"
| "mark_window (num # rest) m = mark_window rest (m(num \<mapsto> True))"

text \<open>
  The second loop, over \<open>newNumbers\<close>: a number that is not yet marked is appended to
  \<open>ns.numbers\<close> and marked. The loop state is the pair of the slice and the map.
\<close>

fun add_unique :: "go_int list \<Rightarrow> go_int list \<times> unique_map \<Rightarrow> go_int list \<times> unique_map" where
  "add_unique [] (w, m) = (w, m)"
| "add_unique (num # rest) (w, m) =
     (if \<not> lookup m num then add_unique rest (w @ [num], m(num \<mapsto> True))
      else add_unique rest (w, m))"

text \<open>The slice after both loops and before the window is cut to size.\<close>

definition appended :: "NumberStore \<Rightarrow> go_int list \<Rightarrow> go_int list" where
  "appended ns newNumbers =
     fst (add_unique newNumbers (numbers ns, mark_window (numbers ns) Map.empty))"

text \<open>
  \<open>if len(ns.numbers) > WindowSize { ns.numbers = ns.numbers[len(ns.numbers)-WindowSize:] }\<close>
\<close>

definition shrink :: "go_int list \<Rightarrow> go_int list" where
  "shrink w = (if length w > WindowSize then drop (length w - WindowSize) w else w)"

text \<open>The call returns \<open>prevState\<close> and leaves the store updated.\<close>

definition AddNumbers :: "NumberStore \<Rightarrow> go_int list \<Rightarrow> go_int list \<times> NumberStore" where
  "AddNumbers ns newNumbers =
     (let prevState = numbers ns
      in (prevState, ns\<lparr>numbers := shrink (appended ns newNumbers)\<rparr>))"

text \<open>A run of merges: the store after the batches have been merged in order.\<close>

fun merges :: "NumberStore \<Rightarrow> go_int list list \<Rightarrow> NumberStore" where
  "merges ns [] = ns"
| "merges ns (b # bs) = merges (snd (AddNumbers ns b)) bs"

subsection \<open>GetAverage (main.go, lines 79 to 92) and GetCurrentState (lines 95 to 102)\<close>

text \<open>
  A finite \<open>float64\<close> is the rational number it denotes. The values that occur here are
  a converted \<open>int\<close>, a converted length and their quotient by a length that is not zero,
  so neither a NaN, an infinity, a negative zero nor a subnormal number can arise, and
  rounding needs the 53-bit significand only. \<open>f64_round\<close> is IEEE 754 rounding to the
  nearest float64, ties to even, for magnitudes in the normal range.
\<close>

type_synonym float64 = rat

function bit_length :: "int \<Rightarrow> int" where
  "bit_length n = (if n \<le> 0 then 0 else 1 + bit_length (n div 2))"
  by pat_completeness auto
termination
  by (relation "measure nat") auto

declare bit_length.simps [simp del]

text \<open>For \<open>a > 0\<close>, the exponent \<open>e\<close> with \<open>2 ^ e \<le> a < 2 ^ (e + 1)\<close>.\<close>

definition binary_exponent :: "rat \<Rightarrow> int" where
  "binary_exponent a =
     (if 1 \<le> a then bit_length \<lfloor>a\<rfloor> - 1
      else - bit_length (\<lceil>1 / a\<rceil> - 1))"

definition round_half_even :: "rat \<Rightarrow> int" where
  "round_half_even q =
     (let f = \<lfloor>q\<rfloor>; d = q - of_int f
      in if d < 1 / 2 then f else if 1 / 2 < d then f + 1 else if even f then f else f + 1)"

definition f64_round :: "rat \<Rightarrow> float64" where
  "f64_round q =
     (if q = 0 then 0
      else let ulp = 2 powi (binary_exponent \<bar>q\<bar> - 52)
           in of_int (round_half_even (q / ulp)) * ulp)"

text \<open>The conversion \<open>float64(n)\<close> of an \<open>int\<close>, and the division of two float64.\<close>

definition f64_of_int :: "int \<Rightarrow> float64" where
  "f64_of_int n = f64_round (of_int n)"

definition f64_div :: "float64 \<Rightarrow> float64 \<Rightarrow> float64" where
  "f64_div a b = f64_round (a / b)"

text \<open>\<open>sum := 0; for _, num := range ns.numbers { sum += num }\<close>, in wrapping \<open>int\<close> arithmetic.\<close>

fun sum_loop :: "go_int list \<Rightarrow> go_int \<Rightarrow> go_int" where
  "sum_loop [] s = s"
| "sum_loop (num # rest) s = sum_loop rest (s + num)"

definition GetAverage :: "NumberStore \<Rightarrow> float64" where
  "GetAverage ns =
     (if length (numbers ns) = 0 then 0
      else let sum = sum_loop (numbers ns) 0
           in f64_div (f64_of_int (sint sum)) (f64_of_int (int (length (numbers ns)))))"

definition GetCurrentState :: "NumberStore \<Rightarrow> go_int list" where
  "GetCurrentState ns = (let currentState = numbers ns in currentState)"

subsection \<open>The second variant of the store (main.go, lines 267 to 320)\<close>

fun mark_window_v2 :: "go_int list \<Rightarrow> unique_map \<Rightarrow> unique_map" where
  "mark_window_v2 [] m = m"
| "mark_window_v2 (num # rest) m = mark_window_v2 rest (m(num \<mapsto> True))"

fun add_unique_v2 :: "go_int list \<Rightarrow> go_int list \<times> unique_map \<Rightarrow> go_int list \<times> unique_map" where
  "add_unique_v2 [] (w, m) = (w, m)"
| "add_unique_v2 (num # rest) (w, m) =
     (if \<not> lookup m num then add_unique_v2 rest (w @ [num], m(num \<mapsto> True))
      else add_unique_v2 rest (w, m))"

definition AddNumbers_v2 :: "NumberStore \<Rightarrow> go_int list \<Rightarrow> go_int list \<times> NumberStore" where
  "AddNumbers_v2 ns newNumbers =
     (let prevState = numbers ns;
          grown = fst (add_unique_v2 newNumbers (numbers ns, mark_window_v2 (numbers ns) Map.empty));
          kept = (if length grown > WindowSize then drop (length grown - WindowSize) grown
                  else grown)
      in (prevState, ns\<lparr>numbers := kept\<rparr>))"

fun sum_loop_v2 :: "go_int list \<Rightarrow> go_int \<Rightarrow> go_int" where
  "sum_loop_v2 [] s = s"
| "sum_loop_v2 (num # rest) s = sum_loop_v2 rest (s + num)"

definition GetAverage_v2 :: "NumberStore \<Rightarrow> float64" where
  "GetAverage_v2 ns =
     (if length (numbers ns) = 0 then 0
      else let sum = sum_loop_v2 (numbers ns) 0
           in f64_div (f64_of_int (sint sum)) (f64_of_int (int (length (numbers ns)))))"

definition GetCurrentState_v2 :: "NumberStore \<Rightarrow> go_int list" where
  "GetCurrentState_v2 ns = (let current = numbers ns in current)"

subsection \<open>fetchNumbers and the request handler (main.go, lines 105 to 221)\<close>

text \<open>
  The number service is outside the program. One call of it is described by what the
  HTTP client does (\<open>http_result\<close>: \<open>http.NewRequest\<close> fails, \<open>client.Do\<close> fails, reading
  the body fails, or a reply with a status code and a body arrives) and by what
  \<open>json.Unmarshal\<close> makes of a body: an error, or the \<open>Numbers\<close> field, which is \<open>nil\<close>
  (\<open>None\<close>) when the reply does not set it. Both are parameters of the model.
\<close>

datatype http_result =
    NewRequestFails string
  | DoFails string
  | ReadFails string
  | Reply int string

type_synonym network = "string \<Rightarrow> string \<Rightarrow> http_result"

type_synonym decoder = "string \<Rightarrow> string + go_int list option"

text \<open>
  An error of \<open>fetchNumbers\<close>: \<open>fmt.Errorf("<text>: %v", err)\<close> is \<open>Wrapped text err\<close>,
  the status error carries the code and the body, \<open>NoNumbers\<close> is
  "no numbers received from server".
\<close>

datatype fetch_error =
    Wrapped string string
  | StatusError int string
  | NoNumbers

definition NumberServiceURL :: string where
  "NumberServiceURL = ''http://20.244.56.144/test''"

definition fetchNumbers :: "network \<Rightarrow> decoder \<Rightarrow> string \<Rightarrow> string \<Rightarrow> fetch_error + go_int list" where
  "fetchNumbers net unmarshal numberType authToken =
     (let url = NumberServiceURL @ ''/'' @ numberType
      in case net url authToken of
           NewRequestFails err \<Rightarrow> Inl (Wrapped ''failed to create request'' err)
         | DoFails err \<Rightarrow> Inl (Wrapped ''failed to make request'' err)
         | ReadFails err \<Rightarrow> Inl (Wrapped ''failed to read response'' err)
         | Reply StatusCode body \<Rightarrow>
             if StatusCode \<noteq> 200 then Inl (StatusError StatusCode body)
             else (case unmarshal body of
                     Inl err \<Rightarrow> Inl (Wrapped ''failed to parse response'' err)
                   | Inr result \<Rightarrow>
                       (case result of
                          None \<Rightarrow> Inl NoNumbers
                        | Some fetched \<Rightarrow>
                            if length fetched = 0 then Inl NoNumbers else Inr fetched)))"

text \<open>
  The JSON replies of the handler. The texts of the three request errors are fixed
  strings of the source, named here by constructors; the error of a failed fetch is
  \<open>"Failed to fetch numbers: " + err\<close> in the first variant (\<open>FailedToFetch\<close>) and the
  bare \<open>err.Error()\<close> in the second (\<open>FetchError\<close>).
\<close>

datatype handler_error =
    AuthorizationRequired
  | InvalidAuthorizationFormat
  | InvalidNumberID
  | FailedToFetch fetch_error
  | FetchError fetch_error

record APIResponse =
  WindowPrevState :: "go_int list"
  WindowCurrState :: "go_int list"
  Numbers :: "go_int list"
  Average :: float64

text \<open>
  \<open>ErrorOnly e\<close> is \<open>gin.H{"error": e}\<close>; \<open>ErrorWithState e prev curr nums avg\<close> is
  \<open>gin.H{"error": e, "windowPrevState": prev, "windowCurrState": curr, "numbers": nums,
  "avg": avg}\<close>, where \<open>nums\<close> is \<open>nil\<close> (\<open>None\<close>) in the source.
\<close>

datatype json_body =
    ErrorOnly handler_error
  | ErrorWithState handler_error "go_int list" "go_int list" "go_int list option" float64
  | Success APIResponse

record response =
  reply_status :: nat
  reply_body :: json_body

definition numberTypes :: "string \<rightharpoonup> string" where
  "numberTypes = [''p'' \<mapsto> ''primes'', ''f'' \<mapsto> ''fibo'', ''e'' \<mapsto> ''even'', ''r'' \<mapsto> ''rand'']"

text \<open>
  The handler of \<open>GET /numbers/:numberid\<close>, given the \<open>Authorization\<close> header and the
  \<open>numberid\<close> parameter of the request. It returns the reply and the store it leaves.
\<close>

definition handler ::
  "network \<Rightarrow> decoder \<Rightarrow> string \<Rightarrow> string \<Rightarrow> NumberStore \<Rightarrow> response \<times> NumberStore" where
  "handler net unmarshal authHeader numberID store =
     (if authHeader = [] then
        (\<lparr>reply_status = 401, reply_body = ErrorOnly AuthorizationRequired\<rparr>, store)
      else if length authHeader \<le> 7 \<or> take 7 authHeader \<noteq> ''Bearer '' then
        (\<lparr>reply_status = 401, reply_body = ErrorOnly InvalidAuthorizationFormat\<rparr>, store)
      else
        let authToken = drop 7 authHeader
        in case numberTypes numberID of
             None \<Rightarrow> (\<lparr>reply_status = 400, reply_body = ErrorOnly InvalidNumberID\<rparr>, store)
           | Some numberType \<Rightarrow>
               (case fetchNumbers net unmarshal numberType authToken of
                  Inl err \<Rightarrow>
                    (\<lparr>reply_status = 500,
                      reply_body = ErrorWithState (FailedToFetch err) (GetCurrentState store)
                               (GetCurrentState store) None (GetAverage store)\<rparr>,
                     store)
                | Inr fetched \<Rightarrow>
                    let (prevState, store1) = AddNumbers store fetched;
                        currState = GetCurrentState store1;
                        avg = GetAverage store1
                    in (\<lparr>reply_status = 200,
                         reply_body = Success \<lparr>WindowPrevState = prevState, WindowCurrState = currState,
                                          Numbers = fetched, Average = avg\<rparr>\<rparr>,
                        store1)))"

text \<open>The second variant (main.go, lines 322 to 411).\<close>

definition fetchNumbers_v2 :: "network \<Rightarrow> decoder \<Rightarrow> string \<Rightarrow> string \<Rightarrow> fetch_error + go_int list" where
  "fetchNumbers_v2 net unmarshal numberType authToken =
     (let url = NumberServiceURL @ ''/'' @ numberType
      in case net url authToken of
           NewRequestFails err \<Rightarrow> Inl (Wrapped ''failed to create request'' err)
         | DoFails err \<Rightarrow> Inl (Wrapped ''failed to execute request'' err)
         | ReadFails err \<Rightarrow> Inl (Wrapped ''failed to read response'' err)
         | Reply StatusCode body \<Rightarrow>
             if StatusCode \<noteq> 200 then Inl (StatusError StatusCode body)
             else (case unmarshal body of
                     Inl err \<Rightarrow> Inl (Wrapped ''failed to parse response'' err)
                   | Inr result \<Rightarrow>
                       (case result of
                          None \<Rightarrow> Inl NoNumbers
                        | Some fetched \<Rightarrow>
                            if length fetched = 0 then Inl NoNumbers else Inr fetched)))"

definition handler_v2 ::
  "network \<Rightarrow> decoder \<Rightarrow> string \<Rightarrow> string \<Rightarrow> NumberStore \<Rightarrow> response \<times> NumberStore" where
  "handler_v2 net unmarshal authHeader numberID store =
     (if authHeader = [] then
        (\<lparr>reply_status = 401, reply_body = ErrorOnly AuthorizationRequired\<rparr>, store)
      else if length authHeader \<le> 7 \<or> take 7 authHeader \<noteq> ''Bearer '' then
        (\<lparr>reply_status = 401, reply_body = ErrorOnly InvalidAuthorizationFormat\<rparr>, store)
      else
        let authToken = drop 7 authHeader
        in case numberTypes numberID of
             None \<Rightarrow> (\<lparr>reply_status = 400, reply_body = ErrorOnly InvalidNumberID\<rparr>, store)
           | Some numberType \<Rightarrow>
               (case fetchNumbers_v2 net unmarshal numberType authToken of
                  Inl err \<Rightarrow> (\<lparr>reply_status = 500, reply_body = ErrorOnly (FetchError err)\<rparr>, store)
                | Inr fetched \<Rightarrow>
                    let (prevState, store1) = AddNumbers_v2 store fetched;
                        currState = GetCurrentState_v2 store1;
                        avg = GetAverage_v2 store1
                    in (\<lparr>reply_status = 200,
                         reply_body = Success \<lparr>WindowPrevState = prevState, WindowCurrState = currState,
                                          Numbers = fetched, Average = avg\<rparr>\<rparr>,
                        store1)))"

subsection \<open>AddNumbers on slices in memory\<close>

text \<open>
  The lists above forget that a Go slice is a view of a backing array that other slices
  may share. Here a slice is the header the runtime keeps: the backing array it points
  into (\<open>arr\<close>, an address), the index of its first element there (\<open>off\<close>), its length and
  its capacity. The memory maps the address of every array to its elements; addresses
  below \<open>allocated\<close> are in use, and address 0 is that of the \<open>nil\<close> slice. Every
  \<open>make\<close> takes a new address, also for an array of no elements. The batch \<open>newNumbers\<close>
  is read as the list of its elements: the caller's slice is the one \<open>json.Unmarshal\<close>
  built, and no slice that leaves the store points into the array of the window.
\<close>

record slice =
  arr :: nat
  off :: nat
  len :: nat
  cap :: nat

record memory =
  arrays :: "nat \<Rightarrow> go_int list"
  allocated :: nat

definition nil_slice :: slice where
  "nil_slice = \<lparr>arr = 0, off = 0, len = 0, cap = 0\<rparr>"

definition empty_memory :: memory where
  "empty_memory = \<lparr>arrays = (\<lambda>a. []), allocated = 1\<rparr>"

text \<open>The elements of a slice.\<close>

definition contents :: "memory \<Rightarrow> slice \<Rightarrow> go_int list" where
  "contents h s = take (len s) (drop (off s) (arrays h (arr s)))"

text \<open>\<open>make([]int, n)\<close>: a new array of \<open>n\<close> zeros and the slice of all of it.\<close>

definition go_make :: "nat \<Rightarrow> memory \<Rightarrow> slice \<times> memory" where
  "go_make n h =
     (\<lparr>arr = allocated h, off = 0, len = n, cap = n\<rparr>,
      h\<lparr>arrays := (arrays h)(allocated h := replicate n 0), allocated := allocated h + 1\<rparr>)"

text \<open>
  \<open>copy(dst, src)\<close> overwrites the first \<open>min(len(dst), len(src))\<close> elements of \<open>dst\<close> with
  those of \<open>src\<close>, read before anything is written.
\<close>

definition go_copy :: "slice \<Rightarrow> slice \<Rightarrow> memory \<Rightarrow> memory" where
  "go_copy dst src h =
     (let n = min (len dst) (len src);
          vals = take n (contents h src);
          old = arrays h (arr dst)
      in h\<lparr>arrays := (arrays h)(arr dst := take (off dst) old @ vals @ drop (off dst + n) old)\<rparr>)"

text \<open>
  \<open>append(s, v)\<close> writes \<open>v\<close> behind the slice in its own array when the capacity allows
  it. Otherwise the runtime allocates a larger array and copies the slice there; how much
  larger is the runtime's choice, and \<open>spare c\<close> is the number of unused elements it adds
  when the old capacity is \<open>c\<close>.
\<close>

definition go_append :: "(nat \<Rightarrow> nat) \<Rightarrow> slice \<Rightarrow> go_int \<Rightarrow> memory \<Rightarrow> slice \<times> memory" where
  "go_append spare s v h =
     (if len s < cap s then
        (s\<lparr>len := len s + 1\<rparr>,
         h\<lparr>arrays := (arrays h)(arr s := (arrays h (arr s))[off s + len s := v])\<rparr>)
      else
        (\<lparr>arr = allocated h, off = 0, len = len s + 1, cap = len s + 1 + spare (cap s)\<rparr>,
         h\<lparr>arrays := (arrays h)(allocated h := contents h s @ [v] @ replicate (spare (cap s)) 0),
           allocated := allocated h + 1\<rparr>))"

text \<open>\<open>s[k:]\<close>, for \<open>k \<le> len(s)\<close>.\<close>

definition slice_from :: "slice \<Rightarrow> nat \<Rightarrow> slice" where
  "slice_from s k = \<lparr>arr = arr s, off = off s + k, len = len s - k, cap = cap s - k\<rparr>"

text \<open>The state of the program: the memory and the field \<open>numbers\<close> of the one store.\<close>

record store_state =
  mem :: memory
  window :: slice

definition initial_state :: store_state where
  "initial_state = \<lparr>mem = empty_memory, window = nil_slice\<rparr>"

fun add_unique_mem ::
  "(nat \<Rightarrow> nat) \<Rightarrow> go_int list \<Rightarrow> slice \<times> memory \<times> unique_map \<Rightarrow> slice \<times> memory \<times> unique_map" where
  "add_unique_mem spare [] (s, h, m) = (s, h, m)"
| "add_unique_mem spare (num # rest) (s, h, m) =
     (if \<not> lookup m num then
        (let (s1, h1) = go_append spare s num h
         in add_unique_mem spare rest (s1, h1, m(num \<mapsto> True)))
      else add_unique_mem spare rest (s, h, m))"

definition AddNumbers_mem ::
  "(nat \<Rightarrow> nat) \<Rightarrow> store_state \<Rightarrow> go_int list \<Rightarrow> slice \<times> store_state" where
  "AddNumbers_mem spare st newNumbers =
     (let (prevState, h1) = go_make (len (window st)) (mem st);
          h2 = go_copy prevState (window st) h1;
          uniqueNumbers = mark_window (contents h2 (window st)) Map.empty;
          (s3, h3, m3) = add_unique_mem spare newNumbers (window st, h2, uniqueNumbers);
          s4 = (if len s3 > WindowSize then slice_from s3 (len s3 - WindowSize) else s3)
      in (prevState, \<lparr>mem = h3, window = s4\<rparr>))"

fun merges_mem :: "(nat \<Rightarrow> nat) \<Rightarrow> store_state \<Rightarrow> go_int list list \<Rightarrow> store_state" where
  "merges_mem spare st [] = st"
| "merges_mem spare st (b # bs) = merges_mem spare (snd (AddNumbers_mem spare st b)) bs"

subsection \<open>Notions used to state the properties\<close>

text \<open>
  The map and the slice stay in step: a number is marked in \<open>uniqueNumbers\<close> exactly when
  it is an element of the slice.
\<close>

definition agrees :: "unique_map \<Rightarrow> go_int list \<Rightarrow> bool" where
  "agrees m w \<longleftrightarrow> (\<forall>k. lookup m k \<longleftrightarrow> k \<in> set w)"

text \<open>
  The first occurrence of every value of a batch, in the order of the batch: the batch
  with every later repetition of a value removed.
\<close>

definition first_occurrences :: "'a list \<Rightarrow> 'a list" where
  "first_occurrences xs = rev (remdups (rev xs))"

text \<open>The numbers a call appends: what follows the old window in the grown slice.\<close>

definition accepted :: "NumberStore \<Rightarrow> go_int list \<Rightarrow> go_int list" where
  "accepted ns newNumbers = drop (length (numbers ns)) (appended ns newNumbers)"

text \<open>
  A reply reports the unchanged state of a store when it carries the window of that store
  as the previous and as the current state, and its average.
\<close>

definition reports_unchanged_state :: "response \<Rightarrow> NumberStore \<Rightarrow> bool" where
  "reports_unchanged_state r store =
     (case reply_body r of
        ErrorWithState e prevState currState nums avg \<Rightarrow>
          prevState = GetCurrentState store \<and> currState = GetCurrentState store \<and>
          avg = GetAverage store
      | ErrorOnly e \<Rightarrow> False
      | Success a \<Rightarrow> False)"

text \<open>
  A number service that cannot be reached, one that answers with status 503, and a
  decoder that finds no numbers.
\<close>

definition unreachable_service :: network where
  "unreachable_service url authToken = DoFails ''context deadline exceeded''"

definition busy_service :: network where
  "busy_service url authToken = Reply 503 ''busy''"

definition no_numbers_decoder :: decoder where
  "no_numbers_decoder payload = Inr None"

text \<open>
  The growth of small slices in the Go runtime: a full slice of capacity \<open>c\<close> moves to an
  array of capacity \<open>2 * c\<close> (1 for the empty slice), which leaves \<open>c - 1\<close> elements spare
  behind the appended one.
\<close>

definition doubling :: "nat \<Rightarrow> nat" where
  "doubling c = c - 1"

text \<open>
  A slice is well formed in a memory when its array is allocated and holds its capacity.
\<close>

definition wf_slice :: "memory \<Rightarrow> slice \<Rightarrow> bool" where
  "wf_slice h s \<longleftrightarrow>
     arr s < allocated h \<and> len s \<le> cap s \<and> off s + cap s \<le> length (arrays h (arr s))"

definition wf_state :: "store_state \<Rightarrow> bool" where
  "wf_state st \<longleftrightarrow> wf_slice (mem st) (window st)"

text \<open>
  What a step leaves alone: no array is freed, and the arrays allocated before keep their
  elements, except possibly the one at address \<open>a\<close>.
\<close>

definition only_writes :: "nat \<Rightarrow> memory \<Rightarrow> memory \<Rightarrow> bool" where
  "only_writes a h h' \<longleftrightarrow>
     allocated h \<le> allocated h' \<and>
     (\<forall>b. b < allocated h \<and> b \<noteq> a \<longrightarrow> arrays h' b = arrays h b)"

text \<open>
  A slice is detached from the store when it lies in an allocated array that is not the
  backing array of the window.
\<close>

definition detached :: "slice \<Rightarrow> store_state \<Rightarrow> bool" where
  "detached p st \<longleftrightarrow> arr p < allocated (mem st) \<and> arr p \<noteq> arr (window st)"

text \<open>The state after \<open>[4, 7, 7, 9]\<close> has been merged into the initial state.\<close>

definition example_state :: store_state where
  "example_state = snd (AddNumbers_mem doubling initial_state [4, 7, 7, 9])"

section \<open>Properties\<close>

subsection \<open>The window is bounded\<close>

lemma length_shrink: "length (shrink w) \<le> WindowSize"
  by (simp add: shrink_def)

lemma AddNumbers_bounded: "length (numbers (snd (AddNumbers ns xs))) \<le> WindowSize"
  by (simp add: AddNumbers_def length_shrink)

lemma merges_snoc: "merges ns (bs @ [b]) = snd (AddNumbers (merges ns bs) b)"
  by (induction bs arbitrary: ns) simp_all

lemma merges_bounded:
  "length (numbers ns) \<le> WindowSize \<Longrightarrow> length (numbers (merges ns bs)) \<le> WindowSize"
proof (induction bs rule: rev_induct)
  case Nil
  then show ?case by simp
next
  case (snoc b bs)
  show ?case unfolding merges_snoc by (rule AddNumbers_bounded)
qed

text \<open>
  Claim C1. Starting from the empty window, after every merge of every sequence of merges
  the window holds at most \<open>WindowSize = 10\<close> numbers: whatever the batches \<open>bs\<close> are and
  however many of them, \<open>n\<close>, have been merged so far.
\<close>

theorem window_bounded_after_every_merge:
  "length (numbers (merges empty_store (take n bs))) \<le> 10"
proof -
  have "length (numbers empty_store) \<le> WindowSize"
    by (simp add: empty_store_def)
  then have "length (numbers (merges empty_store (take n bs))) \<le> WindowSize"
    by (rule merges_bounded)
  then show ?thesis by (simp add: WindowSize_def)
qed

subsection \<open>What the two loops append\<close>

lemma lookup_mark_window: "lookup (mark_window w m) k \<longleftrightarrow> k \<in> set w \<or> lookup m k"
  by (induction w arbitrary: m) (auto simp: lookup_def)

lemma agrees_mark_window: "agrees (mark_window w Map.empty) w"
  by (simp add: agrees_def lookup_mark_window) (simp add: lookup_def)

lemma agrees_step: "agrees m w \<Longrightarrow> agrees (m(k \<mapsto> True)) (w @ [k])"
  by (auto simp: agrees_def lookup_def)

lemma remdups_snoc: "remdups (ys @ [x]) = filter (\<lambda>y. y \<noteq> x) (remdups ys) @ [x]"
  by (induction ys) auto

lemma first_occurrences_Cons:
  "first_occurrences (x # xs) = x # filter (\<lambda>y. y \<noteq> x) (first_occurrences xs)"
  by (simp add: first_occurrences_def remdups_snoc rev_filter)

lemma add_unique_closed_form:
  "agrees m w \<Longrightarrow>
     fst (add_unique xs (w, m)) = w @ filter (\<lambda>v. v \<notin> set w) (first_occurrences xs)"
proof (induction xs arbitrary: w m)
  case Nil
  then show ?case by (simp add: first_occurrences_def)
next
  case (Cons x xs)
  show ?case
  proof (cases "x \<in> set w")
    case True
    with Cons.prems have marked: "lookup m x" by (simp add: agrees_def)
    from True have "filter (\<lambda>v. v \<notin> set w) (filter (\<lambda>y. y \<noteq> x) (first_occurrences xs))
        = filter (\<lambda>v. v \<notin> set w) (first_occurrences xs)"
      by (auto intro: filter_cong)
    with True marked Cons.IH [OF Cons.prems] show ?thesis
      by (simp add: first_occurrences_Cons)
  next
    case False
    with Cons.prems have unmarked: "\<not> lookup m x" by (simp add: agrees_def)
    have "fst (add_unique xs (w @ [x], m(x \<mapsto> True)))
        = (w @ [x]) @ filter (\<lambda>v. v \<notin> set (w @ [x])) (first_occurrences xs)"
      by (rule Cons.IH) (rule agrees_step [OF Cons.prems])
    moreover have "filter (\<lambda>v. v \<notin> set w) (filter (\<lambda>y. y \<noteq> x) (first_occurrences xs))
        = filter (\<lambda>v. v \<notin> set (w @ [x])) (first_occurrences xs)"
      by (auto intro: filter_cong)
    ultimately show ?thesis using False unmarked
      by (simp add: first_occurrences_Cons)
  qed
qed

lemma appended_closed_form:
  "appended ns xs = numbers ns @ filter (\<lambda>v. v \<notin> set (numbers ns)) (first_occurrences xs)"
  by (simp add: appended_def add_unique_closed_form agrees_mark_window)

lemma set_first_occurrences: "set (first_occurrences xs) = set xs"
  by (simp add: first_occurrences_def)

lemma distinct_first_occurrences: "distinct (first_occurrences xs)"
  by (simp add: first_occurrences_def)

lemma appended_known: "set xs \<subseteq> set (numbers ns) \<Longrightarrow> appended ns xs = numbers ns"
  by (auto simp: appended_closed_form set_first_occurrences filter_empty_conv)

lemma shrink_within: "length w \<le> WindowSize \<Longrightarrow> shrink w = w"
  by (simp add: shrink_def)

lemma distinct_shrink: "distinct w \<Longrightarrow> distinct (shrink w)"
  by (simp add: shrink_def)

lemma accepted_closed_form:
  "accepted ns xs = filter (\<lambda>v. v \<notin> set (numbers ns)) (first_occurrences xs)"
  by (simp add: accepted_def appended_closed_form)

text \<open>
  The scenario of the specification: merging \<open>[4, 7, 7, 9]\<close> into the empty store returns
  the empty snapshot and leaves \<open>[4, 7, 9]\<close>; merging \<open>[7, 2]\<close> then returns \<open>[4, 7, 9]\<close> and
  leaves \<open>[4, 7, 9, 2]\<close>.
\<close>

lemma merge_scenario:
  "AddNumbers empty_store [4, 7, 7, 9] = ([], \<lparr>numbers = [4, 7, 9]\<rparr>)"
  "AddNumbers \<lparr>numbers = [4, 7, 9]\<rparr> [7, 2] = ([4, 7, 9], \<lparr>numbers = [4, 7, 9, 2]\<rparr>)"
  by (simp_all add: AddNumbers_def appended_def shrink_def WindowSize_def lookup_def
      empty_store_def)

text \<open>
  Claim C2. A merge into a duplicate-free window leaves a duplicate-free window. The call
  appends exactly the first occurrences of the incoming values that are not in the window
  before the merge, in the order of the batch: a value is accepted only if it is neither in
  the pre-merge window nor accepted earlier in the same call, so that the accepted values
  are pairwise different and a value repeated in the batch is inserted once.
\<close>

theorem merge_keeps_window_duplicate_free:
  "distinct (numbers ns) \<Longrightarrow>
     distinct (numbers (snd (AddNumbers ns xs))) \<and>
     appended ns xs = numbers ns @ accepted ns xs \<and>
     accepted ns xs = filter (\<lambda>v. v \<notin> set (numbers ns)) (first_occurrences xs) \<and>
     distinct (accepted ns xs) \<and>
     set (accepted ns xs) = set xs - set (numbers ns)"
proof -
  assume d: "distinct (numbers ns)"
  have cf: "accepted ns xs = filter (\<lambda>v. v \<notin> set (numbers ns)) (first_occurrences xs)"
    by (rule accepted_closed_form)
  have app: "appended ns xs = numbers ns @ accepted ns xs"
    by (simp add: cf appended_closed_form)
  have da: "distinct (accepted ns xs)"
    by (simp add: cf distinct_first_occurrences)
  have sa: "set (accepted ns xs) = set xs - set (numbers ns)"
    by (auto simp: cf set_first_occurrences)
  from d da sa have "distinct (appended ns xs)"
    by (auto simp: app)
  then have "distinct (numbers (snd (AddNumbers ns xs)))"
    by (simp add: AddNumbers_def distinct_shrink)
  with cf app da sa show ?thesis by simp
qed

theorem merge_keeps_window_duplicate_free_witness:
  "distinct (numbers \<lparr>numbers = [4, 7, 9]\<rparr>) \<and>
   numbers (snd (AddNumbers \<lparr>numbers = [4, 7, 9]\<rparr> [7, 2, 2, 5])) = [4, 7, 9, 2, 5] \<and>
   accepted \<lparr>numbers = [4, 7, 9]\<rparr> [7, 2, 2, 5] = [2, 5] \<and>
   distinct (numbers (snd (AddNumbers \<lparr>numbers = [4, 7, 9]\<rparr> [7, 2, 2, 5])))"
  using merge_keeps_window_duplicate_free [of "\<lparr>numbers = [4, 7, 9]\<rparr>" "[7, 2, 2, 5]"]
  by (simp add: AddNumbers_def appended_def accepted_def shrink_def WindowSize_def lookup_def)

subsection \<open>Eviction\<close>

lemma last_elements: "n \<le> length w \<Longrightarrow> drop (length w - n) w = rev (take n (rev w))"
  by (simp add: take_rev)

text \<open>
  Claim C3. When the appends of a merge push the slice above \<open>WindowSize\<close>, the window
  after the merge is exactly the last \<open>WindowSize\<close> elements of the grown slice, in their
  order: the grown slice is the evicted oldest elements followed by the new window. In
  particular a window \<open>[a, b, c, \<dots>]\<close> at capacity that receives one new value \<open>x\<close>
  becomes \<open>[b, c, \<dots>, x]\<close>.
\<close>

theorem eviction_is_fifo:
  "(WindowSize < length (appended ns xs) \<longrightarrow>
      numbers (snd (AddNumbers ns xs)) = rev (take WindowSize (rev (appended ns xs))) \<and>
      length (numbers (snd (AddNumbers ns xs))) = WindowSize \<and>
      appended ns xs =
        take (length (appended ns xs) - WindowSize) (appended ns xs) @ numbers (snd (AddNumbers ns xs)))
   \<and> (length (numbers ns) = WindowSize \<and> x \<notin> set (numbers ns) \<longrightarrow>
      numbers (snd (AddNumbers ns [x])) = tl (numbers ns) @ [x])"
proof (intro conjI impI)
  assume over: "WindowSize < length (appended ns xs)"
  then have post: "numbers (snd (AddNumbers ns xs))
      = drop (length (appended ns xs) - WindowSize) (appended ns xs)"
    by (simp add: AddNumbers_def shrink_def)
  from over show "numbers (snd (AddNumbers ns xs)) = rev (take WindowSize (rev (appended ns xs)))"
    by (simp add: post last_elements)
  from over show "length (numbers (snd (AddNumbers ns xs))) = WindowSize"
    by (simp add: post)
  show "appended ns xs =
      take (length (appended ns xs) - WindowSize) (appended ns xs) @ numbers (snd (AddNumbers ns xs))"
    by (simp add: post)
next
  assume full: "length (numbers ns) = WindowSize \<and> x \<notin> set (numbers ns)"
  then have "appended ns [x] = numbers ns @ [x]"
    by (simp add: appended_closed_form first_occurrences_def)
  with full show "numbers (snd (AddNumbers ns [x])) = tl (numbers ns) @ [x]"
    by (cases "numbers ns") (simp_all add: AddNumbers_def shrink_def WindowSize_def)
qed

theorem eviction_is_fifo_witness:
  "WindowSize < length (appended \<lparr>numbers = [1, 2, 3, 4, 5, 6, 7, 8, 9, 10]\<rparr> [11, 3, 12]) \<and>
   numbers (snd (AddNumbers \<lparr>numbers = [1, 2, 3, 4, 5, 6, 7, 8, 9, 10]\<rparr> [11, 3, 12]))
     = [3, 4, 5, 6, 7, 8, 9, 10, 11, 12] \<and>
   length (numbers \<lparr>numbers = [1, 2, 3, 4, 5, 6, 7, 8, 9, 10]\<rparr>) = WindowSize \<and>
   11 \<notin> set (numbers \<lparr>numbers = [1, 2, 3, 4, 5, 6, 7, 8, 9, 10]\<rparr>) \<and>
   numbers (snd (AddNumbers \<lparr>numbers = [1, 2, 3, 4, 5, 6, 7, 8, 9, 10]\<rparr> [11]))
     = [2, 3, 4, 5, 6, 7, 8, 9, 10, 11]"
  using eviction_is_fifo [of "\<lparr>numbers = [1, 2, 3, 4, 5, 6, 7, 8, 9, 10]\<rparr>" "[11, 3, 12]" 11]
  by (simp add: AddNumbers_def appended_def shrink_def WindowSize_def lookup_def)

subsection \<open>Batches that bring nothing new\<close>

lemma AddNumbers_known:
  "length (numbers ns) \<le> WindowSize \<Longrightarrow> set xs \<subseteq> set (numbers ns) \<Longrightarrow>
     AddNumbers ns xs = (numbers ns, ns)"
  by (simp add: AddNumbers_def appended_known shrink_within)

text \<open>
  Claim C6. In every state of the store (the window holds at most \<open>WindowSize\<close> numbers,
  as it does after every merge), merging a batch made only of values that are already in
  the window returns the window as it was and leaves the store unchanged. No error is
  raised: the model of \<open>AddNumbers\<close> has no failing branch.
\<close>

theorem duplicate_resubmission_is_noop:
  "length (numbers ns) \<le> WindowSize \<Longrightarrow> set xs \<subseteq> set (numbers ns) \<Longrightarrow>
     fst (AddNumbers ns xs) = numbers ns \<and> snd (AddNumbers ns xs) = ns"
  by (simp add: AddNumbers_known)

theorem duplicate_resubmission_is_noop_witness:
  "length (numbers \<lparr>numbers = [4, 7, 9]\<rparr>) \<le> WindowSize \<and>
   set [9, 4, 9] \<subseteq> set (numbers \<lparr>numbers = [4, 7, 9]\<rparr>) \<and>
   fst (AddNumbers \<lparr>numbers = [4, 7, 9]\<rparr> [9, 4, 9]) = [4, 7, 9] \<and>
   snd (AddNumbers \<lparr>numbers = [4, 7, 9]\<rparr> [9, 4, 9]) = \<lparr>numbers = [4, 7, 9]\<rparr>"
  using duplicate_resubmission_is_noop [of "\<lparr>numbers = [4, 7, 9]\<rparr>" "[9, 4, 9]"]
  by (simp add: WindowSize_def)


subsection \<open>The average\<close>

lemma sum_loop_eq: "sum_loop xs s = s + sum_list xs"
  by (induction xs arbitrary: s) (simp_all add: add.assoc)

lemma sint_sum_list: "sint (sum_list xs :: go_int) = signed_take_bit 63 (sum_list (map sint xs))"
proof (induction xs)
  case Nil
  then show ?case by simp
next
  case (Cons x xs)
  have "sint (x + sum_list xs) = signed_take_bit 63 (sint x + sint (sum_list xs))"
    by (simp add: sint_word_ariths)
  also have "\<dots> = signed_take_bit 63 (sint x + sum_list (map sint xs))"
    unfolding Cons.IH
    by (metis signed_take_bit_add signed_take_bit_signed_take_bit min.idem)
  finally show ?case by simp
qed

lemma sum_loop_exact:
  assumes "- (2 ^ 63) \<le> sum_list (map sint xs)" and "sum_list (map sint xs) < 2 ^ 63"
  shows "sint (sum_loop xs 0) = sum_list (map sint xs)"
  using assms by (simp add: sum_loop_eq sint_sum_list signed_take_bit_int_eq_self)

lemma GetAverage_empty: "GetAverage \<lparr>numbers = []\<rparr> = 0"
  by (simp add: GetAverage_def)

lemma GetAverage_example: "GetAverage \<lparr>numbers = [2, 4, 6, 8]\<rparr> = 5"
  by code_simp

lemma GetAverage_scenario:
  "GetAverage \<lparr>numbers = [4, 7, 9]\<rparr> = 7505999378950827 / 1125899906842624"
  "GetAverage \<lparr>numbers = [4, 7, 9, 2]\<rparr> = 11 / 2"
  by code_simp+

lemma GetAverage_no_overflow:
  assumes "numbers ns \<noteq> []"
    and "- (2 ^ 63) \<le> sum_list (map sint (numbers ns))"
    and "sum_list (map sint (numbers ns)) < 2 ^ 63"
  shows "GetAverage ns =
    f64_div (f64_of_int (sum_list (map sint (numbers ns)))) (f64_of_int (int (length (numbers ns))))"
  using assms by (simp add: GetAverage_def sum_loop_exact)

text \<open>
  The rounding is that of the hardware on known values: \<open>1 / 10\<close> and \<open>1 / 3\<close> become the
  doubles \<open>0x3FB999999999999A\<close> and \<open>0x3FD5555555555555\<close>, and \<open>2 ^ 53 + 1\<close>, a tie, goes
  to the even neighbour.
\<close>

lemma f64_round_examples:
  "f64_div 1 10 = 3602879701896397 / 36028797018963968"
  "f64_div 1 3 = 6004799503160661 / 18014398509481984"
  "f64_of_int 9007199254740993 = 9007199254740992"
  "f64_of_int 9007199254740995 = 9007199254740996"
  by code_simp+

lemma bit_length_bounds:
  "0 < n \<Longrightarrow> \<exists>k. bit_length n = int (Suc k) \<and> 2 ^ k \<le> n \<and> n < 2 ^ Suc k"
proof (induction n rule: bit_length.induct)
  case (1 n)
  show ?case
  proof (cases "n = 1")
    case True
    then have "bit_length n = int (Suc 0)"
      by (simp add: bit_length.simps)
    with True show ?thesis by (intro exI [of _ 0]) simp
  next
    case False
    with "1.prems" have half: "0 < n div 2" by simp
    with "1.IH" "1.prems" obtain k where k: "bit_length (n div 2) = int (Suc k)"
      and lo: "2 ^ k \<le> n div 2" and hi: "n div 2 < 2 ^ Suc k"
      by auto
    from "1.prems" k have "bit_length n = int (Suc (Suc k))"
      by (subst bit_length.simps) simp
    moreover from lo have "2 ^ Suc k \<le> n" by simp
    moreover from hi have "n < 2 ^ Suc (Suc k)" by simp
    ultimately show ?thesis by blast
  qed
qed

lemma binary_exponent_bounds:
  assumes "0 < a"
  shows "2 powi binary_exponent a \<le> a" and "a < 2 powi (binary_exponent a + 1)"
proof -
  have "2 powi binary_exponent a \<le> a \<and> a < 2 powi (binary_exponent a + 1)"
  proof (cases "1 \<le> a")
    case True
    then have "0 < \<lfloor>a\<rfloor>" by simp
    then obtain k where k: "bit_length \<lfloor>a\<rfloor> = int (Suc k)"
      and lo: "2 ^ k \<le> \<lfloor>a\<rfloor>" and hi: "\<lfloor>a\<rfloor> < 2 ^ Suc k"
      using bit_length_bounds by blast
    from True k have e: "binary_exponent a = int k"
      by (simp add: binary_exponent_def)
    from lo have "(2::rat) ^ k \<le> of_int \<lfloor>a\<rfloor>"
      by (metis of_int_le_iff of_int_numeral of_int_power)
    then have l: "(2::rat) ^ k \<le> a" by linarith
    from hi have "\<lfloor>a\<rfloor> + 1 \<le> 2 ^ Suc k" by simp
    then have "(of_int (\<lfloor>a\<rfloor> + 1) :: rat) \<le> 2 ^ Suc k"
      by (metis of_int_le_iff of_int_numeral of_int_power)
    then have u: "a < 2 ^ Suc k" by linarith
    have "int k + 1 = int (Suc k)" by simp
    with l u show ?thesis
      unfolding e by (simp only: power_int_of_nat)
  next
    case False
    let ?m = "\<lceil>1 / a\<rceil>"
    from False assms have "1 < 1 / a" by simp
    then have "1 < ?m" by linarith
    then have "0 < ?m - 1" by simp
    then obtain k where k: "bit_length (?m - 1) = int (Suc k)"
      and lo: "2 ^ k \<le> ?m - 1" and hi: "?m - 1 < 2 ^ Suc k"
      using bit_length_bounds by blast
    from False k have e: "binary_exponent a = - int (Suc k)"
      by (simp add: binary_exponent_def)
    from hi have "?m \<le> 2 ^ Suc k" by simp
    then have "(of_int ?m :: rat) \<le> 2 ^ Suc k"
      by (metis of_int_le_iff of_int_numeral of_int_power)
    then have "1 / a \<le> 2 ^ Suc k" by linarith
    with assms have l: "1 / 2 ^ Suc k \<le> a"
      by (simp add: field_simps)
    from lo have "(2::rat) ^ k \<le> of_int (?m - 1)"
      by (metis of_int_le_iff of_int_numeral of_int_power)
    then have "(2::rat) ^ k < 1 / a" by linarith
    with assms have u: "a < 1 / 2 ^ k"
      by (simp add: field_simps)
    have "(2::rat) powi (- int (Suc k)) = 1 / 2 ^ Suc k"
      by (simp only: power_int_minus power_int_of_nat inverse_eq_divide)
    moreover have "- int (Suc k) + 1 = - int k" by simp
    then have "(2::rat) powi (- int (Suc k) + 1) = 1 / 2 ^ k"
      by (simp only: power_int_minus power_int_of_nat inverse_eq_divide)
    ultimately show ?thesis using l u unfolding e by simp
  qed
  then show "2 powi binary_exponent a \<le> a" and "a < 2 powi (binary_exponent a + 1)"
    by simp_all
qed

lemma round_half_even_error: "\<bar>of_int (round_half_even q) - q\<bar> \<le> 1 / 2"
proof -
  have "of_int \<lfloor>q\<rfloor> \<le> q" and "q < of_int \<lfloor>q\<rfloor> + 1"
    by linarith+
  then show ?thesis
    by (auto simp: round_half_even_def Let_def)
qed

lemma round_half_even_of_int: "round_half_even (of_int k) = k"
  by (simp add: round_half_even_def)

text \<open>Rounding moves a number by at most half a unit in the last place.\<close>

lemma f64_round_error:
  assumes "q \<noteq> 0"
  shows "\<bar>f64_round q - q\<bar> \<le> 2 powi (binary_exponent \<bar>q\<bar> - 53)"
proof -
  define ulp :: rat where "ulp = 2 powi (binary_exponent \<bar>q\<bar> - 52)"
  have pos: "0 < ulp" by (simp add: ulp_def)
  have "f64_round q - q = (of_int (round_half_even (q / ulp)) - q / ulp) * ulp"
    using assms pos by (simp add: f64_round_def ulp_def [symmetric] Let_def field_simps)
  then have "\<bar>f64_round q - q\<bar> = \<bar>of_int (round_half_even (q / ulp)) - q / ulp\<bar> * ulp"
    using pos by (simp add: abs_mult)
  also have "\<dots> \<le> 1 / 2 * ulp"
    using pos round_half_even_error [of "q / ulp"] by (simp add: mult_right_mono)
  also have "\<dots> = 2 powi (binary_exponent \<bar>q\<bar> - 53)"
    by (simp add: ulp_def power_int_diff)
  finally show ?thesis .
qed

text \<open>Relative to the number, that is at most \<open>2 ^ (- 53)\<close>.\<close>

lemma f64_round_relative_error: "\<bar>f64_round q - q\<bar> \<le> \<bar>q\<bar> / 2 ^ 53"
proof (cases "q = 0")
  case True
  then show ?thesis by (simp add: f64_round_def)
next
  case False
  then have "0 < \<bar>q\<bar>" by simp
  then have "2 powi binary_exponent \<bar>q\<bar> \<le> \<bar>q\<bar>"
    by (rule binary_exponent_bounds)
  moreover have "(2::rat) powi (binary_exponent \<bar>q\<bar> - 53) = 2 powi binary_exponent \<bar>q\<bar> / 2 ^ 53"
    by (simp add: power_int_diff)
  ultimately have "(2::rat) powi (binary_exponent \<bar>q\<bar> - 53) \<le> \<bar>q\<bar> / 2 ^ 53"
    by (simp add: divide_right_mono)
  with f64_round_error [OF False] show ?thesis by linarith
qed

text \<open>An integer of magnitude below \<open>2 ^ 53\<close> is a float64: its conversion is exact.\<close>

lemma f64_of_int_exact:
  assumes "\<bar>n\<bar> < 2 ^ 53"
  shows "f64_of_int n = of_int n"
proof (cases "n = 0")
  case True
  then show ?thesis by (simp add: f64_of_int_def f64_round_def)
next
  case False
  define a :: rat where "a = \<bar>of_int n\<bar>"
  have abs: "a = of_int \<bar>n\<bar>"
    by (simp add: a_def)
  from False have "1 \<le> \<bar>n\<bar>" by simp
  then have one: "1 \<le> a"
    unfolding abs by (simp only: of_int_1_le_iff)
  then have "0 < \<lfloor>a\<rfloor>" by simp
  then obtain k where k: "bit_length \<lfloor>a\<rfloor> = int (Suc k)"
    and lo: "2 ^ k \<le> \<lfloor>a\<rfloor>"
    using bit_length_bounds by blast
  have fl: "\<lfloor>a\<rfloor> = \<bar>n\<bar>"
    unfolding abs by (rule floor_of_int)
  from lo fl assms have small: "(2::int) ^ k < 2 ^ 53" by linarith
  have "(1::int) < 2" by simp
  from power_less_imp_less_exp [OF this small] have k52: "k \<le> 52" by simp
  from one k have e: "binary_exponent a - 52 = - int (52 - k)"
    using k52 by (simp add: binary_exponent_def)
  have ulp: "(2::rat) powi (binary_exponent a - 52) = 1 / 2 ^ (52 - k)"
    unfolding e by (simp only: power_int_minus power_int_of_nat inverse_eq_divide)
  have "of_int n / (1 / 2 ^ (52 - k)) = (of_int (n * 2 ^ (52 - k)) :: rat)"
    by simp
  then have "round_half_even (of_int n / (1 / 2 ^ (52 - k))) = n * 2 ^ (52 - k)"
    by (simp only: round_half_even_of_int)
  then show ?thesis
    using False by (simp add: f64_of_int_def f64_round_def a_def [symmetric] ulp)
qed


text \<open>
  As long as the sum of the window stays below \<open>2 ^ 53\<close> in magnitude, the average is the
  exact quotient of the sum by the length, rounded once to the nearest float64.
\<close>

lemma GetAverage_rounded:
  assumes "numbers ns \<noteq> []" and "length (numbers ns) \<le> WindowSize"
    and "\<bar>sum_list (map sint (numbers ns))\<bar> < 2 ^ 53"
  shows "GetAverage ns =
    f64_round (of_int (sum_list (map sint (numbers ns))) / of_int (int (length (numbers ns))))"
proof -
  from assms(3) have "- (2 ^ 63) \<le> sum_list (map sint (numbers ns))"
    and "sum_list (map sint (numbers ns)) < 2 ^ 63"
    by simp_all
  then have "sint (sum_loop (numbers ns) 0) = sum_list (map sint (numbers ns))"
    by (rule sum_loop_exact)
  moreover from assms(3)
  have "f64_of_int (sum_list (map sint (numbers ns))) = of_int (sum_list (map sint (numbers ns)))"
    by (rule f64_of_int_exact)
  moreover from assms(2) have "\<bar>int (length (numbers ns))\<bar> < 2 ^ 53"
    by (simp add: WindowSize_def)
  then have "f64_of_int (int (length (numbers ns))) = of_int (int (length (numbers ns)))"
    by (rule f64_of_int_exact)
  ultimately show ?thesis
    using assms(1) by (simp add: GetAverage_def f64_div_def)
qed

text \<open>
  Claim C5. The average of the empty window is 0 (\<open>GetAverage_empty\<close>) and the average of
  \<open>[2, 4, 6, 8]\<close> is 5 (\<open>GetAverage_example\<close>). While the sum of the window fits into an
  \<open>int\<close>, the average is the float64 quotient of that sum by the length
  (\<open>GetAverage_no_overflow\<close>, \<open>GetAverage_rounded\<close>). The sum is accumulated in an \<open>int\<close>,
  though, and wraps around: after \<open>[9223372036854775807, 1]\<close> has been merged into the
  empty store, the window is that batch and \<open>GetAverage\<close> returns
  \<open>-4611686018427387904\<close>, where the sum of the window divided by its length is
  \<open>4611686018427387904\<close>.
\<close>

theorem average_wraps_on_overflow:
  "numbers (snd (AddNumbers empty_store [9223372036854775807, 1])) = [9223372036854775807, 1] \<and>
   GetAverage (snd (AddNumbers empty_store [9223372036854775807, 1])) = - 4611686018427387904 \<and>
   f64_div (f64_of_int (sum_list (map sint [9223372036854775807, 1 :: go_int]))) (f64_of_int 2)
     = 4611686018427387904"
  by code_simp

subsection \<open>The two variants of the store\<close>

lemma mark_window_v2_eq: "mark_window_v2 w m = mark_window w m"
  by (induction w arbitrary: m) simp_all

lemma add_unique_v2_eq: "add_unique_v2 xs (w, m) = add_unique xs (w, m)"
  by (induction xs arbitrary: w m) simp_all

lemma sum_loop_v2_eq: "sum_loop_v2 xs s = sum_loop xs s"
  by (induction xs arbitrary: s) simp_all

lemma AddNumbers_v2_eq: "AddNumbers_v2 ns xs = AddNumbers ns xs"
  by (simp add: AddNumbers_v2_def AddNumbers_def appended_def shrink_def
      mark_window_v2_eq add_unique_v2_eq Let_def)

text \<open>
  Claim C9. The two variants of the store are extensionally equal: on every state and
  every batch the second variant's \<open>AddNumbers\<close> returns the same snapshot and leaves the
  same store as the first one's, and \<open>GetAverage\<close> and \<open>GetCurrentState\<close> return the same
  values.
\<close>

theorem store_variants_agree:
  "AddNumbers_v2 ns xs = AddNumbers ns xs \<and>
   GetAverage_v2 ns = GetAverage ns \<and>
   GetCurrentState_v2 ns = GetCurrentState ns"
  by (simp add: AddNumbers_v2_eq GetAverage_v2_def GetAverage_def sum_loop_v2_eq
      GetCurrentState_v2_def GetCurrentState_def)

text \<open>
  Claim C10. \<open>AddNumbers\<close> is defined on every input and has no failing branch. Called
  with the empty batch in any state of the store (at most \<open>WindowSize\<close> numbers in the
  window) it returns the pre-merge snapshot and leaves the store unchanged, in both
  variants.
\<close>

theorem empty_batch_is_noop:
  "length (numbers ns) \<le> WindowSize \<Longrightarrow>
     AddNumbers ns [] = (numbers ns, ns) \<and> AddNumbers_v2 ns [] = (numbers ns, ns)"
  by (simp add: AddNumbers_v2_eq AddNumbers_known)

theorem empty_batch_is_noop_witness:
  "length (numbers \<lparr>numbers = [4, 7, 9]\<rparr>) \<le> WindowSize \<and>
   AddNumbers \<lparr>numbers = [4, 7, 9]\<rparr> [] = ([4, 7, 9], \<lparr>numbers = [4, 7, 9]\<rparr>) \<and>
   AddNumbers_v2 \<lparr>numbers = [4, 7, 9]\<rparr> [] = ([4, 7, 9], \<lparr>numbers = [4, 7, 9]\<rparr>)"
  using empty_batch_is_noop [of "\<lparr>numbers = [4, 7, 9]\<rparr>"]
  by (simp add: WindowSize_def)

subsection \<open>A failed fetch\<close>

lemma fetchNumbers_success:
  "fetchNumbers net unmarshal numberType authToken = Inr fetched \<longleftrightarrow>
     (\<exists>payload. net (NumberServiceURL @ ''/'' @ numberType) authToken = Reply 200 payload \<and>
        unmarshal payload = Inr (Some fetched) \<and> fetched \<noteq> [])"
  by (auto simp: fetchNumbers_def split: http_result.splits sum.splits option.splits if_splits)

lemma fetchNumbers_v2_success:
  "fetchNumbers_v2 net unmarshal numberType authToken = Inr fetched \<longleftrightarrow>
     (\<exists>payload. net (NumberServiceURL @ ''/'' @ numberType) authToken = Reply 200 payload \<and>
        unmarshal payload = Inr (Some fetched) \<and> fetched \<noteq> [])"
  by (auto simp: fetchNumbers_v2_def split: http_result.splits sum.splits option.splits if_splits)

text \<open>
  Claim C7, as amended. When a request passes the checks of the handler and the fetch
  fails (whatever the failure: \<open>fetchNumbers\<close> returns an error for a failed request, a
  status other than 200, a payload that does not parse and a missing or empty list of
  numbers, see \<open>fetchNumbers_success\<close>), neither variant of the handler merges anything:
  the store is left as it was. The first variant replies with status 500, an error, the
  unchanged window as both the previous and the current state and its average. The second
  variant replies with status 500 and the error alone.
\<close>

theorem failed_fetch_leaves_window:
  "7 < length authHeader \<Longrightarrow> take 7 authHeader = ''Bearer '' \<Longrightarrow>
   numberTypes numberID = Some numberType \<Longrightarrow>
     (fetchNumbers net unmarshal numberType (drop 7 authHeader) = Inl err \<longrightarrow>
        handler net unmarshal authHeader numberID store =
          (\<lparr>reply_status = 500,
            reply_body = ErrorWithState (FailedToFetch err) (numbers store) (numbers store) None
                     (GetAverage store)\<rparr>,
           store) \<and>
        reports_unchanged_state (fst (handler net unmarshal authHeader numberID store)) store) \<and>
     (fetchNumbers_v2 net unmarshal numberType (drop 7 authHeader) = Inl err \<longrightarrow>
        handler_v2 net unmarshal authHeader numberID store =
          (\<lparr>reply_status = 500, reply_body = ErrorOnly (FetchError err)\<rparr>, store))"
  by (auto simp: handler_def handler_v2_def GetCurrentState_def reports_unchanged_state_def)

theorem failed_fetch_leaves_window_witness:
  "7 < length ''Bearer abc'' \<and> take 7 ''Bearer abc'' = ''Bearer '' \<and>
   numberTypes ''e'' = Some ''even'' \<and>
   fetchNumbers busy_service no_numbers_decoder ''even'' (drop 7 ''Bearer abc'')
     = Inl (StatusError 503 ''busy'') \<and>
   fetchNumbers_v2 busy_service no_numbers_decoder ''even'' (drop 7 ''Bearer abc'')
     = Inl (StatusError 503 ''busy'') \<and>
   handler busy_service no_numbers_decoder ''Bearer abc'' ''e'' \<lparr>numbers = [2, 4]\<rparr>
     = (\<lparr>reply_status = 500,
         reply_body = ErrorWithState (FailedToFetch (StatusError 503 ''busy'')) [2, 4] [2, 4] None 3\<rparr>,
        \<lparr>numbers = [2, 4]\<rparr>) \<and>
   handler_v2 busy_service no_numbers_decoder ''Bearer abc'' ''e'' \<lparr>numbers = [2, 4]\<rparr>
     = (\<lparr>reply_status = 500, reply_body = ErrorOnly (FetchError (StatusError 503 ''busy''))\<rparr>,
        \<lparr>numbers = [2, 4]\<rparr>)"
proof -
  have avg: "GetAverage \<lparr>numbers = [2, 4]\<rparr> = 3"
    by code_simp
  have f1: "fetchNumbers busy_service no_numbers_decoder ''even'' (drop 7 ''Bearer abc'')
     = Inl (StatusError 503 ''busy'')"
    by (simp add: fetchNumbers_def busy_service_def)
  have f2: "fetchNumbers_v2 busy_service no_numbers_decoder ''even'' (drop 7 ''Bearer abc'')
     = Inl (StatusError 503 ''busy'')"
    by (simp add: fetchNumbers_v2_def busy_service_def)
  have nt: "numberTypes ''e'' = Some ''even''"
    by (simp add: numberTypes_def)
  show ?thesis
    using failed_fetch_leaves_window [of "''Bearer abc''" "''e''" "''even''"
        busy_service no_numbers_decoder "StatusError 503 ''busy''"
        "\<lparr>numbers = [2, 4]\<rparr>"] f1 f2 nt avg
    by simp
qed

text \<open>
  The claim as stated, that the reply to a failed fetch reports the unchanged window and
  its average, fails for the second variant of the handler.
\<close>

theorem failed_fetch_v2_counterexample:
  "fetchNumbers_v2 unreachable_service no_numbers_decoder ''even'' ''abc''
     = Inl (Wrapped ''failed to execute request'' ''context deadline exceeded'') \<and>
   handler_v2 unreachable_service no_numbers_decoder ''Bearer abc'' ''e'' \<lparr>numbers = [2, 4]\<rparr>
     = (\<lparr>reply_status = 500,
         reply_body = ErrorOnly (FetchError (Wrapped ''failed to execute request''
                  ''context deadline exceeded''))\<rparr>,
        \<lparr>numbers = [2, 4]\<rparr>) \<and>
   \<not> reports_unchanged_state
       (fst (handler_v2 unreachable_service no_numbers_decoder ''Bearer abc'' ''e''
          \<lparr>numbers = [2, 4]\<rparr>))
       \<lparr>numbers = [2, 4]\<rparr>"
  by (simp add: handler_v2_def fetchNumbers_v2_def unreachable_service_def numberTypes_def
      reports_unchanged_state_def)

subsection \<open>The snapshot in memory\<close>

lemma length_contents: "wf_slice h s \<Longrightarrow> length (contents h s) = len s"
  unfolding contents_def wf_slice_def by simp linarith

lemma only_writes_refl: "only_writes a h h"
  by (simp add: only_writes_def)

lemma only_writes_trans:
  "only_writes a h h' \<Longrightarrow> only_writes a' h' h'' \<Longrightarrow> a' = a \<or> allocated h \<le> a'
    \<Longrightarrow> only_writes a h h''"
  by (auto simp: only_writes_def)

lemma go_append_contents:
  assumes "wf_slice h s" and "go_append spare s v h = (s', h')"
  shows "contents h' s' = contents h s @ [v]"
proof (cases "len s < cap s")
  case True
  let ?A = "arrays h (arr s)"
  from True assms have s': "s' = s\<lparr>len := len s + 1\<rparr>"
    and h': "arrays h' (arr s) = ?A[off s + len s := v]"
    by (auto simp: go_append_def)
  from True assms(1) have inb: "len s < length (drop (off s) ?A)"
    unfolding wf_slice_def by simp linarith
  have "drop (off s) (?A[off s + len s := v]) = (drop (off s) ?A)[len s := v]"
    by (simp add: drop_update_swap)
  then have "contents h' s' = take (Suc (len s)) ((drop (off s) ?A)[len s := v])"
    by (simp add: contents_def s' h')
  also have "\<dots> = take (len s) (drop (off s) ?A) @ [v]"
    using inb by (simp add: take_Suc_conv_app_nth)
  finally show ?thesis by (simp add: contents_def)
next
  case False
  with assms have "s' = \<lparr>arr = allocated h, off = 0, len = len s + 1, cap = len s + 1 + spare (cap s)\<rparr>"
    and "arrays h' (allocated h) = contents h s @ [v] @ replicate (spare (cap s)) 0"
    by (auto simp: go_append_def)
  moreover from assms(1) have "length (contents h s) = len s"
    by (rule length_contents)
  ultimately show ?thesis by (simp add: contents_def)
qed

lemma go_append_wf:
  assumes "wf_slice h s" and "go_append spare s v h = (s', h')"
  shows "wf_slice h' s'"
  using assms length_contents [OF assms(1)]
  by (auto simp: go_append_def wf_slice_def split: if_splits)

lemma go_append_frame:
  assumes "wf_slice h s" and "go_append spare s v h = (s', h')"
  shows "only_writes (arr s) h h'" and "arr s' = arr s \<or> allocated h \<le> arr s'"
  using assms by (auto simp: go_append_def only_writes_def wf_slice_def split: if_splits)


lemma add_unique_mem_refines:
  assumes "wf_slice h s" and "add_unique_mem spare xs (s, h, m) = (s', h', m')"
  shows "add_unique xs (contents h s, m) = (contents h' s', m') \<and> wf_slice h' s' \<and>
         only_writes (arr s) h h' \<and> (arr s' = arr s \<or> allocated h \<le> arr s')"
  using assms
proof (induction xs arbitrary: s h m)
  case Nil
  then show ?case by (simp add: only_writes_refl)
next
  case (Cons x xs)
  show ?case
  proof (cases "lookup m x")
    case True
    with Cons.prems have "add_unique_mem spare xs (s, h, m) = (s', h', m')" by simp
    with Cons.IH [OF Cons.prems(1)] True show ?thesis by simp
  next
    case False
    obtain s1 h1 where ap: "go_append spare s x h = (s1, h1)"
      by (cases "go_append spare s x h")
    from Cons.prems(1) ap have c1: "contents h1 s1 = contents h s @ [x]"
      and wf1: "wf_slice h1 s1"
      and fr1: "only_writes (arr s) h h1"
      and a1: "arr s1 = arr s \<or> allocated h \<le> arr s1"
      by (rule go_append_contents go_append_wf go_append_frame)+
    from Cons.prems(2) False ap
    have run: "add_unique_mem spare xs (s1, h1, m(x \<mapsto> True)) = (s', h', m')" by simp
    from Cons.IH [OF wf1 run]
    have ih: "add_unique xs (contents h1 s1, m(x \<mapsto> True)) = (contents h' s', m')"
      and wf': "wf_slice h' s'"
      and fr': "only_writes (arr s1) h1 h'"
      and a': "arr s' = arr s1 \<or> allocated h1 \<le> arr s'"
      by blast+
    from fr1 fr' a1 have "only_writes (arr s) h h'"
      by (rule only_writes_trans)
    moreover from a1 a' fr1 have "arr s' = arr s \<or> allocated h \<le> arr s'"
      by (auto simp: only_writes_def)
    ultimately show ?thesis using False ih wf' by (simp add: c1)
  qed
qed

text \<open>The snapshot: \<open>make\<close> followed by \<open>copy\<close>.\<close>

lemma snapshot_copy:
  assumes "wf_slice h w"
    and "go_make (len w) h = (p, h1)"
    and "h2 = go_copy p w h1"
  shows "arr p = allocated h" and "len p = len w"
    and "arrays h2 (arr p) = contents h w"
    and "allocated h2 = allocated h + 1"
    and "\<forall>b. b \<noteq> allocated h \<longrightarrow> arrays h2 b = arrays h b"
proof -
  from assms(2) have p: "p = \<lparr>arr = allocated h, off = 0, len = len w, cap = len w\<rparr>"
    and h1: "h1 = h\<lparr>arrays := (arrays h)(allocated h := replicate (len w) 0),
                    allocated := allocated h + 1\<rparr>"
    by (auto simp: go_make_def)
  from assms(1) have ne: "arr w \<noteq> allocated h"
    by (simp add: wf_slice_def)
  then have same: "contents h1 w = contents h w"
    by (simp add: h1 contents_def)
  from assms(1) have n: "length (contents h w) = len w"
    by (rule length_contents)
  show "arr p = allocated h" and "len p = len w"
    by (simp_all add: p)
  have zeros: "arrays h1 (arr p) = replicate (len w) 0"
    by (simp add: p h1)
  have "arrays h2 (arr p) =
      take (off p) (arrays h1 (arr p)) @ take (min (len p) (len w)) (contents h1 w)
        @ drop (off p + min (len p) (len w)) (arrays h1 (arr p))"
    by (simp add: assms(3) go_copy_def Let_def)
  also have "\<dots> = take (len w) (contents h w)"
    unfolding zeros same by (simp add: p)
  finally show "arrays h2 (arr p) = contents h w"
    using n by simp
  show "allocated h2 = allocated h + 1"
    by (simp add: assms(3) go_copy_def Let_def h1)
  show "\<forall>b. b \<noteq> allocated h \<longrightarrow> arrays h2 b = arrays h b"
    by (simp add: assms(3) go_copy_def Let_def p h1)
qed


lemma slice_from_contents:
  "contents h (slice_from s k) = drop k (contents h s)"
  by (simp add: contents_def slice_from_def drop_take add.commute)

lemma slice_from_wf:
  "wf_slice h s \<Longrightarrow> k \<le> len s \<Longrightarrow> wf_slice h (slice_from s k)"
  by (auto simp: wf_slice_def slice_from_def)

lemma AddNumbers_mem_props:
  assumes wf: "wf_state st"
    and run: "AddNumbers_mem spare st xs = (p, st')"
  shows "arr p = allocated (mem st)"
    and "contents (mem st') p = contents (mem st) (window st)"
    and "contents (mem st') (window st')
           = numbers (snd (AddNumbers \<lparr>numbers = contents (mem st) (window st)\<rparr> xs))"
    and "wf_state st'"
    and "only_writes (arr (window st)) (mem st) (mem st')"
    and "arr (window st') = arr (window st) \<or> allocated (mem st) < arr (window st')"
    and "allocated (mem st) < allocated (mem st')"
proof -
  let ?h = "mem st" and ?w = "window st"
  from wf have wfw: "wf_slice ?h ?w" by (simp add: wf_state_def)
  obtain q h1 where mk: "go_make (len ?w) ?h = (q, h1)"
    by (cases "go_make (len ?w) ?h")
  define h2 where "h2 = go_copy q ?w h1"
  obtain s3 h3 m3 where lp:
    "add_unique_mem spare xs (?w, h2, mark_window (contents h2 ?w) Map.empty) = (s3, h3, m3)"
    by (cases "add_unique_mem spare xs (?w, h2, mark_window (contents h2 ?w) Map.empty)")
  from run have p: "p = q"
    and st': "st' = \<lparr>mem = h3,
        window = (if len s3 > WindowSize then slice_from s3 (len s3 - WindowSize) else s3)\<rparr>"
    by (simp_all add: AddNumbers_mem_def mk h2_def [symmetric] lp)
  note snap = snapshot_copy [OF wfw mk h2_def]
  from wfw have old: "arr ?w < allocated ?h" by (simp add: wf_slice_def)
  with snap(5) have arrs: "arrays h2 (arr ?w) = arrays ?h (arr ?w)" by simp
  then have c2: "contents h2 ?w = contents ?h ?w"
    by (simp add: contents_def)
  from wfw arrs snap(4) have wf2: "wf_slice h2 ?w"
    by (simp add: wf_slice_def)
  from add_unique_mem_refines [OF wf2 lp]
  have grown: "add_unique xs (contents ?h ?w, mark_window (contents ?h ?w) Map.empty)
                 = (contents h3 s3, m3)"
    and wf3: "wf_slice h3 s3"
    and fr3: "only_writes (arr ?w) h2 h3"
    and a3: "arr s3 = arr ?w \<or> allocated h2 \<le> arr s3"
    unfolding c2 by blast+
  show "arr p = allocated ?h"
    by (simp add: p snap(1))
  from old snap(4) fr3 have "arrays h3 (allocated ?h) = arrays h2 (allocated ?h)"
    by (auto simp: only_writes_def)
  with snap(1,3) have "arrays h3 (arr q) = contents ?h ?w" by simp
  moreover from mk have "off q = 0" by (auto simp: go_make_def)
  moreover from wfw have "length (contents ?h ?w) = len ?w" by (rule length_contents)
  ultimately show "contents (mem st') p = contents ?h ?w"
    by (simp add: p st' contents_def snap(2))
  from wf3 have l3: "length (contents h3 s3) = len s3" by (rule length_contents)
  show "contents (mem st') (window st')
           = numbers (snd (AddNumbers \<lparr>numbers = contents ?h ?w\<rparr> xs))"
    by (simp add: st' AddNumbers_def appended_def grown shrink_def l3 slice_from_contents)
  from wf3 show "wf_state st'"
    by (simp add: st' wf_state_def slice_from_wf)
  from fr3 snap(4,5) show "only_writes (arr ?w) ?h (mem st')"
    by (auto simp: st' only_writes_def)
  from a3 snap(4) show "arr (window st') = arr ?w \<or> allocated ?h < arr (window st')"
    by (auto simp: st' slice_from_def)
  from fr3 snap(4) show "allocated ?h < allocated (mem st')"
    by (simp add: st' only_writes_def)
qed


lemma contents_cong: "arrays h' (arr p) = arrays h (arr p) \<Longrightarrow> contents h' p = contents h p"
  by (simp add: contents_def)

lemma wf_initial_state: "wf_state initial_state"
  by (simp add: wf_state_def wf_slice_def initial_state_def empty_memory_def nil_slice_def)

lemma AddNumbers_mem_wf: "wf_state st \<Longrightarrow> wf_state (snd (AddNumbers_mem spare st xs))"
  by (cases "AddNumbers_mem spare st xs") (simp add: AddNumbers_mem_props(4))

lemma snapshot_detached:
  assumes "wf_state st"
  shows "detached (fst (AddNumbers_mem spare st xs)) (snd (AddNumbers_mem spare st xs))"
proof -
  obtain p st' where run: "AddNumbers_mem spare st xs = (p, st')"
    by (cases "AddNumbers_mem spare st xs")
  from assms have "arr (window st) < allocated (mem st)"
    by (simp add: wf_state_def wf_slice_def)
  with AddNumbers_mem_props(1,6,7) [OF assms run] show ?thesis
    by (auto simp: run detached_def)
qed

lemma detached_step:
  assumes "wf_state st" and "detached p st"
  shows "detached p (snd (AddNumbers_mem spare st xs))"
    and "arrays (mem (snd (AddNumbers_mem spare st xs))) (arr p) = arrays (mem st) (arr p)"
proof -
  obtain q st' where run: "AddNumbers_mem spare st xs = (q, st')"
    by (cases "AddNumbers_mem spare st xs")
  from AddNumbers_mem_props(5,6) [OF assms(1) run] assms(2)
  show "detached p (snd (AddNumbers_mem spare st xs))"
    and "arrays (mem (snd (AddNumbers_mem spare st xs))) (arr p) = arrays (mem st) (arr p)"
    by (auto simp: run detached_def only_writes_def)
qed

lemma detached_merges:
  "wf_state st \<Longrightarrow> detached p st \<Longrightarrow>
     arrays (mem (merges_mem spare st bs)) (arr p) = arrays (mem st) (arr p)"
proof (induction bs arbitrary: st)
  case Nil
  then show ?case by simp
next
  case (Cons b bs)
  from Cons.prems have "wf_state (snd (AddNumbers_mem spare st b))"
    and "detached p (snd (AddNumbers_mem spare st b))"
    and "arrays (mem (snd (AddNumbers_mem spare st b))) (arr p) = arrays (mem st) (arr p)"
    by (simp_all add: AddNumbers_mem_wf detached_step)
  with Cons.IH [of "snd (AddNumbers_mem spare st b)"] show ?case by simp
qed

lemma merges_mem_wf: "wf_state st \<Longrightarrow> wf_state (merges_mem spare st bs)"
  by (induction bs arbitrary: st) (simp_all add: AddNumbers_mem_wf)

lemma AddNumbers_mem_refines:
  assumes "wf_state st"
  shows "contents (mem (snd (AddNumbers_mem spare st xs))) (window (snd (AddNumbers_mem spare st xs)))
    = numbers (snd (AddNumbers \<lparr>numbers = contents (mem st) (window st)\<rparr> xs))"
  using AddNumbers_mem_props(3) [OF assms, of spare xs]
  by (cases "AddNumbers_mem spare st xs") simp

lemma merges_mem_refines:
  "wf_state st \<Longrightarrow>
     contents (mem (merges_mem spare st bs)) (window (merges_mem spare st bs))
       = numbers (merges \<lparr>numbers = contents (mem st) (window st)\<rparr> bs)"
proof (induction bs arbitrary: st)
  case Nil
  then show ?case by simp
next
  case (Cons b bs)
  let ?st1 = "snd (AddNumbers_mem spare st b)"
  let ?ns = "\<lparr>numbers = contents (mem st) (window st)\<rparr>"
  from Cons.prems have "wf_state ?st1" by (rule AddNumbers_mem_wf)
  then have "contents (mem (merges_mem spare ?st1 bs)) (window (merges_mem spare ?st1 bs))
      = numbers (merges \<lparr>numbers = contents (mem ?st1) (window ?st1)\<rparr> bs)"
    by (rule Cons.IH)
  moreover have "\<lparr>numbers = contents (mem ?st1) (window ?st1)\<rparr> = snd (AddNumbers ?ns b)"
    by (simp add: AddNumbers_mem_refines [OF Cons.prems] AddNumbers_def)
  ultimately show ?case by simp
qed

text \<open>
  Claim C4. In every well-formed state, whatever the batch and whatever the growth policy
  of the runtime, \<open>AddNumbers\<close> returns the window as it was immediately before the merge:
  the returned slice holds the pre-merge elements. It is a copy by value: it lies in an
  array of its own, neither the old nor the new backing array of the window, and no later
  merge changes what it holds. The window itself is updated in the store, to what the
  merge on lists computes. The initial state is well formed and every merge keeps the
  state so (\<open>wf_initial_state\<close>, \<open>merges_mem_wf\<close>).
\<close>

theorem snapshot_is_a_copy:
  "wf_state st \<Longrightarrow>
     fst (AddNumbers \<lparr>numbers = contents (mem st) (window st)\<rparr> xs) = contents (mem st) (window st) \<and>
     contents (mem (snd (AddNumbers_mem spare st xs))) (fst (AddNumbers_mem spare st xs))
       = contents (mem st) (window st) \<and>
     contents (mem (snd (AddNumbers_mem spare st xs))) (window (snd (AddNumbers_mem spare st xs)))
       = numbers (snd (AddNumbers \<lparr>numbers = contents (mem st) (window st)\<rparr> xs)) \<and>
     arr (fst (AddNumbers_mem spare st xs)) \<noteq> arr (window st) \<and>
     arr (fst (AddNumbers_mem spare st xs)) \<noteq> arr (window (snd (AddNumbers_mem spare st xs))) \<and>
     (\<forall>bs. contents (mem (merges_mem spare (snd (AddNumbers_mem spare st xs)) bs))
             (fst (AddNumbers_mem spare st xs))
           = contents (mem st) (window st))"
proof -
  assume wf: "wf_state st"
  obtain p st' where run: "AddNumbers_mem spare st xs = (p, st')"
    by (cases "AddNumbers_mem spare st xs")
  note props = AddNumbers_mem_props [OF wf run]
  from snapshot_detached [OF wf, of spare xs] have det: "detached p st'"
    by (simp add: run)
  have "fst (AddNumbers \<lparr>numbers = contents (mem st) (window st)\<rparr> xs) = contents (mem st) (window st)"
    by (simp add: AddNumbers_def)
  moreover from wf props(1) have "arr p \<noteq> arr (window st)"
    by (simp add: wf_state_def wf_slice_def)
  moreover from det have "arr p \<noteq> arr (window st')"
    by (simp add: detached_def)
  moreover have "contents (mem (merges_mem spare st' bs)) p = contents (mem st) (window st)" for bs
  proof -
    have "contents (mem (merges_mem spare st' bs)) p = contents (mem st') p"
      by (rule contents_cong) (rule detached_merges [OF props(4) det])
    with props(2) show ?thesis by simp
  qed
  ultimately show ?thesis using props(2,3) by (simp add: run)
qed

lemma example_state_eval:
  "window example_state = \<lparr>arr = 4, off = 0, len = 3, cap = 4\<rparr> \<and>
   allocated (mem example_state) = 5 \<and>
   arrays (mem example_state) 4 = [4, 7, 9, 0]"
  by (simp add: example_state_def AddNumbers_mem_def initial_state_def empty_memory_def nil_slice_def
     go_make_def go_copy_def go_append_def contents_def doubling_def lookup_def Let_def WindowSize_def)

theorem snapshot_is_a_copy_witness:
  "wf_state example_state \<and>
   contents (mem example_state) (window example_state) = [4, 7, 9] \<and>
   contents (mem (snd (AddNumbers_mem doubling example_state [7, 2])))
     (fst (AddNumbers_mem doubling example_state [7, 2])) = [4, 7, 9] \<and>
   contents (mem (snd (AddNumbers_mem doubling example_state [7, 2])))
     (window (snd (AddNumbers_mem doubling example_state [7, 2]))) = [4, 7, 9, 2] \<and>
   contents (mem (merges_mem doubling (snd (AddNumbers_mem doubling example_state [7, 2])) [[1, 3], [5]]))
     (fst (AddNumbers_mem doubling example_state [7, 2])) = [4, 7, 9]"
proof -
  have wf: "wf_state example_state"
    unfolding example_state_def by (rule AddNumbers_mem_wf) (rule wf_initial_state)
  have c: "contents (mem example_state) (window example_state) = [4, 7, 9]"
    by (simp add: contents_def example_state_eval)
  have m: "numbers (snd (AddNumbers \<lparr>numbers = [4, 7, 9]\<rparr> [7, 2])) = [4, 7, 9, 2]"
    by (simp add: AddNumbers_def appended_def shrink_def WindowSize_def lookup_def)
  from snapshot_is_a_copy [OF wf, of "[7, 2]" doubling] wf c m show ?thesis
    by (simp del: merges_mem.simps)
qed

end
